theory Spec2Isabelle
  imports Complex_Main
begin

section \<open>Data model of cryptoTracker.py\<close>

text \<open>
  Every error of the program is a Python exception derived from \<open>Exception\<close>; the payload
  is its message. Signals outside that class (a keyboard interrupt) are not part of the
  model.
\<close>

datatype exn = Exception string

text \<open>
  A row of the \<open>MarketData\<close> table (columns \<open>exchange\<close>, \<open>product\<close>, \<open>price\<close>). The
  auto-increment \<open>id\<close> is the row's position in the table; the \<open>timestamp\<close> default is
  filled in by the database and is not read by \<open>main\<close>. A price is a finite Python
  float; the only operation \<open>main\<close> performs on it is the comparison with the threshold,
  which is exact, so prices are reals.
\<close>

record MarketData =
  md_exchange :: string
  md_product :: string
  md_price :: real

text \<open>
  One call of \<open>send_email_alert\<close>: subject and body are formatted from the product, the
  exchange name and the price.
\<close>

record alert =
  alert_product :: string
  alert_exchange :: string
  alert_price :: real

datatype log_entry =
    Started int real
  | Connected string
  | Index_created string
  | Initiating
  | Price_logged string string real
  | Email_sent alert
  | Email_failed exn
  | Tracking_error exn

text \<open>
  The configuration read from the environment at import time.
\<close>

record config =
  MARKET_REFRESH_RATE :: int
  PRICE_THRESHOLD :: real

text \<open>
  An exchange object (\<open>BitFinex_Market()\<close> and its siblings, whose modules are imported
  from \<open>public\<close>). \<open>main\<close> uses four attributes: the name \<open>exchange\<close>, the dict
  \<open>products\<close> from product to index name (in insertion order), and the methods
  \<open>record_ticker\<close> and \<open>get_price\<close>. What the methods answer is decided by the remote
  exchange; the model takes their outcome in the cycle numbered \<open>n\<close> as given.
\<close>

record Market =
  exchange :: string
  products :: "(string \<times> string) list"
  record_ticker :: "nat \<Rightarrow> exn option"
  get_price :: "nat \<Rightarrow> string \<Rightarrow> exn + real"

text \<open>
  The outcomes of the other collaborators: the database (\<open>create_all\<close>, \<open>commit\<close>), the
  search store (\<open>indices.exists\<close>, \<open>indices.create\<close>) and the mail server. What the
  session holds after a failed commit is decided by the ORM, not by this program;
  \<open>commit_failure_expunges\<close> selects between the two behaviours (the added object is
  dropped, or it stays pending).
\<close>

record env =
  create_all_raises :: "exn option"
  exists_raises :: "string \<Rightarrow> exn option"
  create_raises :: "string \<Rightarrow> exn option"
  commit_raises :: "nat \<Rightarrow> string \<Rightarrow> string \<Rightarrow> exn option"
  commit_failure_expunges :: bool
  smtp_raises :: "nat \<Rightarrow> string \<Rightarrow> string \<Rightarrow> exn option"

text \<open>
  Everything \<open>main\<close> changes: the indices of the search store, the objects added to
  \<open>db.session\<close> and not yet committed, the committed rows, the calls of
  \<open>send_email_alert\<close>, the log, and the seconds slept so far. \<open>fetch_calls\<close> and
  \<open>fetch_ok\<close> count the calls of \<open>get_price\<close> and those that returned a price.
\<close>

record world =
  indices :: "string list"
  pending :: "MarketData list"
  table :: "MarketData list"
  alerts :: "alert list"
  logged :: "log_entry list"
  clock :: int
  fetch_calls :: nat
  fetch_ok :: nat

text \<open>
  A statement either completes (\<open>Ok\<close>) or raises (\<open>Raised\<close>), in both cases with the
  state it leaves behind.
\<close>

datatype outcome = Ok world | Raised exn world

fun state_of :: "outcome \<Rightarrow> world" where
  "state_of (Ok w) = w"
| "state_of (Raised e w) = w"

section \<open>Operations\<close>

text \<open>
  \<open>time.sleep\<close> converts the length to a 64-bit count of nanoseconds and raises
  \<open>OverflowError\<close> when it does not fit, that is beyond 9223372036 seconds on either
  side; then it raises \<open>ValueError\<close> on a negative length.
\<close>

definition sleep :: "int \<Rightarrow> world \<Rightarrow> outcome" where
  "sleep secs w =
     (if secs > 9223372036 \<or> secs < - 9223372036
      then Raised (Exception ''timestamp too large to convert to C _PyTime_t'') w
      else if secs < 0 then Raised (Exception ''sleep length must be non-negative'') w
      else Ok (w\<lparr>clock := clock w + secs\<rparr>))"

definition logging :: "log_entry \<Rightarrow> world \<Rightarrow> world" where
  "logging l w = w\<lparr>logged := logged w @ [l]\<rparr>"

text \<open>
  \<open>send_email_alert\<close> (lines 76 to 91) catches every exception of the delivery and logs
  it: the call always returns.
\<close>

definition send_email_alert :: "env \<Rightarrow> nat \<Rightarrow> alert \<Rightarrow> world \<Rightarrow> world" where
  "send_email_alert ev n a w =
     (let w' = w\<lparr>alerts := alerts w @ [a]\<rparr> in
      case smtp_raises ev n (alert_exchange a) (alert_product a) of
        None \<Rightarrow> logging (Email_sent a) w'
      | Some e \<Rightarrow> logging (Email_failed e) w')"

definition es_indices_exists :: "env \<Rightarrow> string \<Rightarrow> world \<Rightarrow> exn + bool" where
  "es_indices_exists ev idx w =
     (case exists_raises ev idx of
        Some e \<Rightarrow> Inl e
      | None \<Rightarrow> Inr (idx \<in> set (indices w)))"

definition es_indices_create :: "env \<Rightarrow> string \<Rightarrow> world \<Rightarrow> outcome" where
  "es_indices_create ev idx w =
     (case create_raises ev idx of
        Some e \<Rightarrow> Raised e w
      | None \<Rightarrow>
          if idx \<in> set (indices w)
          then Raised (Exception ''resource_already_exists_exception'') w
          else Ok (w\<lparr>indices := indices w @ [idx]\<rparr>))"

text \<open>Lines 154 and 155: create the index unless it exists.\<close>

definition ensure_index :: "env \<Rightarrow> string \<Rightarrow> world \<Rightarrow> outcome" where
  "ensure_index ev kibana_index w =
     (case es_indices_exists ev kibana_index w of
        Inl e \<Rightarrow> Raised e w
      | Inr found \<Rightarrow> if \<not> found then es_indices_create ev kibana_index w else Ok w)"

definition db_create_all :: "env \<Rightarrow> world \<Rightarrow> outcome" where
  "db_create_all ev w = (case create_all_raises ev of Some e \<Rightarrow> Raised e w | None \<Rightarrow> Ok w)"

definition db_session_add :: "MarketData \<Rightarrow> world \<Rightarrow> world" where
  "db_session_add new_data w = w\<lparr>pending := pending w @ [new_data]\<rparr>"

definition db_session_commit :: "env \<Rightarrow> nat \<Rightarrow> string \<Rightarrow> string \<Rightarrow> world \<Rightarrow> outcome" where
  "db_session_commit ev n ex p w =
     (case commit_raises ev n ex p of
        None \<Rightarrow> Ok (w\<lparr>table := table w @ pending w, pending := []\<rparr>)
      | Some e \<Rightarrow> Raised e (if commit_failure_expunges ev then w\<lparr>pending := []\<rparr> else w))"

section \<open>main\<close>

text \<open>The loop of lines 153 to 156 over the items of \<open>exchange.products\<close>.\<close>

fun provision_products :: "env \<Rightarrow> (string \<times> string) list \<Rightarrow> world \<Rightarrow> outcome" where
  "provision_products ev [] w = Ok w"
| "provision_products ev ((product, kibana_index) # rest) w =
     (case ensure_index ev kibana_index w of
        Raised e w' \<Rightarrow> Raised e w'
      | Ok w' \<Rightarrow> provision_products ev rest (logging (Index_created product) w'))"

text \<open>The loop of lines 151 to 156 over the exchanges.\<close>

fun provision_exchanges :: "env \<Rightarrow> Market list \<Rightarrow> world \<Rightarrow> outcome" where
  "provision_exchanges ev [] w = Ok w"
| "provision_exchanges ev (ex # rest) w =
     (case provision_products ev (products ex) (logging (Connected (exchange ex)) w) of
        Raised e w' \<Rightarrow> Raised e w'
      | Ok w' \<Rightarrow> provision_exchanges ev rest w')"

text \<open>The body of the loop over the products, lines 166 to 177.\<close>

definition collect_product ::
  "config \<Rightarrow> env \<Rightarrow> nat \<Rightarrow> Market \<Rightarrow> string \<Rightarrow> world \<Rightarrow> outcome" where
  "collect_product cfg ev n ex product w =
     (let w0 = w\<lparr>fetch_calls := Suc (fetch_calls w)\<rparr> in
      case get_price ex n product of
        Inl e \<Rightarrow> Raised e w0
      | Inr price \<Rightarrow>
          (let w1 = w0\<lparr>fetch_ok := Suc (fetch_ok w0)\<rparr>;
               new_data = \<lparr>md_exchange = exchange ex, md_product = product, md_price = price\<rparr>;
               w2 = db_session_add new_data w1
           in case db_session_commit ev n (exchange ex) product w2 of
                Raised e w3 \<Rightarrow> Raised e w3
              | Ok w3 \<Rightarrow>
                  (let w4 = logging (Price_logged (exchange ex) product price) w3
                   in Ok (if price > PRICE_THRESHOLD cfg
                          then send_email_alert ev n
                                 \<lparr>alert_product = product, alert_exchange = exchange ex,
                                  alert_price = price\<rparr> w4
                          else w4))))"

fun collect_products ::
  "config \<Rightarrow> env \<Rightarrow> nat \<Rightarrow> Market \<Rightarrow> string list \<Rightarrow> world \<Rightarrow> outcome" where
  "collect_products cfg ev n ex [] w = Ok w"
| "collect_products cfg ev n ex (product # rest) w =
     (case collect_product cfg ev n ex product w of
        Raised e w' \<Rightarrow> Raised e w'
      | Ok w' \<Rightarrow> collect_products cfg ev n ex rest w')"

text \<open>
  The body of the \<open>try\<close>, lines 163 to 177: for each exchange the ticker push, then its
  products (the keys of the dict). Nothing inside catches an exception.
\<close>

fun collect_exchanges :: "config \<Rightarrow> env \<Rightarrow> nat \<Rightarrow> Market list \<Rightarrow> world \<Rightarrow> outcome" where
  "collect_exchanges cfg ev n [] w = Ok w"
| "collect_exchanges cfg ev n (ex # rest) w =
     (case record_ticker ex n of
        Some e \<Rightarrow> Raised e w
      | None \<Rightarrow>
          (case collect_products cfg ev n ex (map fst (products ex)) w of
             Raised e w' \<Rightarrow> Raised e w'
           | Ok w' \<Rightarrow> collect_exchanges cfg ev n rest w'))"

text \<open>
  One pass through the body of \<open>while True\<close>, lines 161 to 180: the sleep is outside the
  \<open>try\<close>, the handler logs the exception and sleeps ten seconds.
\<close>

definition iteration :: "config \<Rightarrow> env \<Rightarrow> Market list \<Rightarrow> nat \<Rightarrow> world \<Rightarrow> outcome" where
  "iteration cfg ev exchanges n w =
     (case sleep (MARKET_REFRESH_RATE cfg) w of
        Raised e w' \<Rightarrow> Raised e w'
      | Ok w1 \<Rightarrow>
          (case collect_exchanges cfg ev n exchanges w1 of
             Ok w2 \<Rightarrow> Ok w2
           | Raised e w2 \<Rightarrow> sleep 10 (logging (Tracking_error e) w2)))"

text \<open>
  \<open>while True\<close> never returns. \<open>while_loop cfg ev exchanges k n w\<close> runs the passes
  numbered \<open>n\<close>, ..., \<open>n + k - 1\<close>: \<open>Ok w'\<close> says that all \<open>k\<close> passes were completed and
  the loop goes on from \<open>w'\<close>, \<open>Raised e w'\<close> that an exception left the loop.
\<close>

fun while_loop :: "config \<Rightarrow> env \<Rightarrow> Market list \<Rightarrow> nat \<Rightarrow> nat \<Rightarrow> world \<Rightarrow> outcome" where
  "while_loop cfg ev exchanges 0 n w = Ok w"
| "while_loop cfg ev exchanges (Suc k) n w =
     (case iteration cfg ev exchanges n w of
        Raised e w' \<Rightarrow> Raised e w'
      | Ok w' \<Rightarrow> while_loop cfg ev exchanges k (Suc n) w')"

text \<open>
  \<open>main\<close>, lines 139 to 180, observed after \<open>k\<close> passes of the loop. The list of exchanges
  (lines 144 to 148) is a parameter.
\<close>

definition main :: "config \<Rightarrow> env \<Rightarrow> Market list \<Rightarrow> nat \<Rightarrow> world \<Rightarrow> outcome" where
  "main cfg ev exchanges k w =
     (case db_create_all ev w of
        Raised e w' \<Rightarrow> Raised e w'
      | Ok w0 \<Rightarrow>
          (case provision_exchanges ev exchanges
                  (logging (Started (MARKET_REFRESH_RATE cfg) (PRICE_THRESHOLD cfg)) w0) of
             Raised e w' \<Rightarrow> Raised e w'
           | Ok w1 \<Rightarrow> while_loop cfg ev exchanges k 0 (logging Initiating w1)))"

section \<open>Scenario data\<close>

text \<open>
  A configuration with refresh interval 1 and threshold 50000, an environment in which
  every collaborator answers, and variants in which the database refuses every commit or
  the search store cannot be reached.
\<close>

definition cfg0 :: config where
  "cfg0 = \<lparr>MARKET_REFRESH_RATE = 1, PRICE_THRESHOLD = 50000\<rparr>"

definition env_ok :: env where
  "env_ok = \<lparr>create_all_raises = None, exists_raises = (\<lambda>_. None), create_raises = (\<lambda>_. None),
     commit_raises = (\<lambda>_ _ _. None), commit_failure_expunges = True,
     smtp_raises = (\<lambda>_ _ _. None)\<rparr>"

definition env_commit_down :: env where
  "env_commit_down =
     env_ok\<lparr>commit_raises := (\<lambda>_ _ _. Some (Exception ''database is locked''))\<rparr>"

definition env_es_down :: env where
  "env_es_down = env_ok\<lparr>exists_raises := (\<lambda>_. Some (Exception ''connection error''))\<rparr>"

text \<open>
  The database refuses the commits of cycle 0 only; the argument chooses what the session
  does with the object whose commit was refused.
\<close>

definition env_first_commit_refused :: "bool \<Rightarrow> env" where
  "env_first_commit_refused expunges =
     env_ok\<lparr>commit_raises :=
              (\<lambda>n _ _. if n = 0 then Some (Exception ''database is locked'') else None),
            commit_failure_expunges := expunges\<rparr>"


definition fresh :: world where
  "fresh = \<lparr>indices = [], pending = [], table = [], alerts = [], logged = [], clock = 0,
     fetch_calls = 0, fetch_ok = 0\<rparr>"

text \<open>
  Exchanges with one product: one that always answers the same price, one whose
  \<open>get_price\<close> always raises, one whose \<open>record_ticker\<close> always raises.
\<close>

definition steady :: "string \<Rightarrow> string \<Rightarrow> string \<Rightarrow> real \<Rightarrow> Market" where
  "steady nm p idx v = \<lparr>exchange = nm, products = [(p, idx)], record_ticker = (\<lambda>_. None),
     get_price = (\<lambda>_ _. Inr v)\<rparr>"


definition ticker_down :: "string \<Rightarrow> string \<Rightarrow> string \<Rightarrow> real \<Rightarrow> Market" where
  "ticker_down nm p idx v =
     (steady nm p idx v)\<lparr>record_ticker := (\<lambda>_. Some (Exception ''connection refused''))\<rparr>"

section \<open>Predicates used in the statements\<close>

text \<open>
  \<open>tally w w' r s c\<close>: from \<open>w\<close> to \<open>w'\<close> the table kept its rows and gained \<open>r\<close> more,
  \<open>get_price\<close> was called \<open>c\<close> times and returned a price \<open>s\<close> times.
\<close>

definition tally :: "world \<Rightarrow> world \<Rightarrow> nat \<Rightarrow> nat \<Rightarrow> nat \<Rightarrow> bool" where
  "tally w w' r s c \<longleftrightarrow>
     take (length (table w)) (table w') = table w \<and>
     length (table w') = length (table w) + r \<and>
     fetch_ok w' = fetch_ok w + s \<and>
     fetch_calls w' = fetch_calls w + c"

text \<open>\<open>no_collection w w'\<close>: nothing that the collection loop does has happened.\<close>

definition no_collection :: "world \<Rightarrow> world \<Rightarrow> bool" where
  "no_collection w w' \<longleftrightarrow>
     table w' = table w \<and> pending w' = pending w \<and> alerts w' = alerts w \<and>
     clock w' = clock w \<and> fetch_calls w' = fetch_calls w \<and> fetch_ok w' = fetch_ok w"

text \<open>
  \<open>blocked ev w idx\<close>: the index cannot be provisioned, because the existence check
  raises, or because the index is absent and its creation raises.
\<close>

definition blocked :: "env \<Rightarrow> world \<Rightarrow> string \<Rightarrow> bool" where
  "blocked ev w idx \<longleftrightarrow>
     exists_raises ev idx \<noteq> None \<or> (idx \<notin> set (indices w) \<and> create_raises ev idx \<noteq> None)"

section \<open>Lemmas about the operations\<close>

lemma count_list_distinct: "distinct xs \<Longrightarrow> x \<in> set xs \<Longrightarrow> count_list xs x = 1"
  by (induction xs) auto

subsection \<open>The loop never raises\<close>




text \<open>
  Line 161 is outside the \<open>try\<close>: a refresh rate that \<open>time.sleep\<close> refuses ends the
  loop in its first pass.
\<close>

lemma while_loop_refused_rate:
  assumes "MARKET_REFRESH_RATE cfg < 0 \<or> 9223372036 < MARKET_REFRESH_RATE cfg"
  shows "\<exists>e. while_loop cfg ev exs (Suc k) n w = Raised e w"
  using assms by (auto simp: iteration_def sleep_def)


lemma collect_exchanges_append:
  "collect_exchanges cfg ev n (xs @ ys) w =
     (case collect_exchanges cfg ev n xs w of
        Raised e w' \<Rightarrow> Raised e w'
      | Ok w' \<Rightarrow> collect_exchanges cfg ev n ys w')"
  by (induction xs arbitrary: w) (auto split: option.splits outcome.splits)

subsection \<open>A product whose fetch or commit raises\<close>



subsection \<open>An exchange whose fetch fails\<close>




subsection \<open>An exchange whose fetches and commits succeed\<close>






subsection \<open>The session after a refused commit\<close>

text \<open>
  \<open>main\<close> never calls \<open>db.session.rollback()\<close>. What the next successful commit writes
  after a refused one therefore depends on the session alone: if the refused object stays
  pending, the commit of cycle 1 writes it together with the row of cycle 1; if the
  session drops it, only the row of cycle 1 is written.
\<close>

lemma refused_row_written_by_next_commit:
  "length (table (state_of (while_loop cfg0 (env_first_commit_refused False)
      [steady ''gdax'' ''BTC-USD'' ''btc'' 100] 2 0 fresh))) = 2"
  by (simp add: numeral_2_eq_2 env_first_commit_refused_def env_ok_def steady_def cfg0_def
      fresh_def iteration_def sleep_def collect_product_def db_session_add_def
      db_session_commit_def logging_def)

lemma refused_row_dropped_by_session:
  "length (table (state_of (while_loop cfg0 (env_first_commit_refused True)
      [steady ''gdax'' ''BTC-USD'' ''btc'' 100] 2 0 fresh))) = 1"
  by (simp add: numeral_2_eq_2 env_first_commit_refused_def env_ok_def steady_def cfg0_def
      fresh_def iteration_def sleep_def collect_product_def db_session_add_def
      db_session_commit_def logging_def)

subsection \<open>Counting rows against fetches\<close>

lemma tally_refl: "tally w w 0 0 0"
  by (simp add: tally_def)

lemma tally_trans:
  assumes "tally w w1 r s c" and "tally w1 w2 r' s' c'"
  shows "tally w w2 (r + r') (s + s') (c + c')"
proof -
  have len: "length (table w1) = length (table w) + r" using assms(1) by (simp add: tally_def)
  have "take (length (table w)) (table w2)
      = take (length (table w)) (take (length (table w1)) (table w2))"
    using len by (simp add: min_def)
  also have "\<dots> = table w" using assms by (simp add: tally_def)
  finally show ?thesis using assms by (simp add: tally_def)
qed

lemma collect_product_tally:
  assumes "pending w = []"
  shows "case collect_product cfg ev n ex p w of
           Ok w' \<Rightarrow> tally w w' 1 1 1 \<and> pending w' = []
         | Raised e w' \<Rightarrow>
             tally w w' 0 0 1 \<or>
             (tally w w' 0 1 1 \<and> commit_raises ev n (exchange ex) p \<noteq> None)"
  using assms
  by (simp add: collect_product_def db_session_commit_def db_session_add_def
      send_email_alert_def logging_def tally_def Let_def split: option.splits sum.splits)

lemma collect_products_tally:
  assumes "pending w = []"
  shows "case collect_products cfg ev n ex ps w of
           Ok w' \<Rightarrow> tally w w' (length ps) (length ps) (length ps) \<and> pending w' = []
         | Raised e w' \<Rightarrow>
             (\<exists>r s c. tally w w' r s c \<and> r \<le> s \<and> s \<le> r + 1 \<and> s \<le> c \<and> c \<le> length ps \<and>
                ((\<forall>p\<in>set ps. commit_raises ev n (exchange ex) p = None) \<longrightarrow> r = s))"
  using assms
proof (induction ps arbitrary: w)
  case Nil
  then show ?case by (simp add: tally_refl)
next
  case (Cons p ps)
  note step = collect_product_tally [where cfg = cfg and ev = ev and n = n and ex = ex and p = p, OF Cons.prems]
  show ?case
  proof (cases "collect_product cfg ev n ex p w")
    case (Raised e w1)
    with step have "tally w w1 0 0 1 \<or>
        (tally w w1 0 1 1 \<and> commit_raises ev n (exchange ex) p \<noteq> None)" by simp
    then have "\<exists>r s c. tally w w1 r s c \<and> r \<le> s \<and> s \<le> r + 1 \<and> s \<le> c \<and> c \<le> length (p # ps) \<and>
        ((\<forall>q\<in>set (p # ps). commit_raises ev n (exchange ex) q = None) \<longrightarrow> r = s)"
    proof
      assume "tally w w1 0 0 1"
      then show ?thesis by (intro exI [of _ 0] exI [of _ 1]) simp
    next
      assume "tally w w1 0 1 1 \<and> commit_raises ev n (exchange ex) p \<noteq> None"
      then show ?thesis by (intro exI [of _ 0] exI [of _ 1]) simp
    qed
    with Raised show ?thesis by simp
  next
    case (Ok w1)
    with step have t1: "tally w w1 1 1 1" and clean: "pending w1 = []" by simp_all
    note ih = Cons.IH [OF clean]
    show ?thesis
    proof (cases "collect_products cfg ev n ex ps w1")
      case inner: (Ok w2)
      with ih have "tally w1 w2 (length ps) (length ps) (length ps)" "pending w2 = []"
        by simp_all
      with tally_trans [OF t1 this(1)] Ok inner show ?thesis by simp
    next
      case inner: (Raised e w2)
      with ih have "\<exists>r s c. tally w1 w2 r s c \<and> r \<le> s \<and> s \<le> r + 1 \<and> s \<le> c \<and> c \<le> length ps \<and>
          ((\<forall>p\<in>set ps. commit_raises ev n (exchange ex) p = None) \<longrightarrow> r = s)"
        by simp
      then obtain r s c where t2: "tally w1 w2 r s c" and
        b: "r \<le> s" "s \<le> r + 1" "s \<le> c" "c \<le> length ps"
        "(\<forall>p\<in>set ps. commit_raises ev n (exchange ex) p = None) \<longrightarrow> r = s"
        by blast
      have "tally w w2 (1 + r) (1 + s) (1 + c) \<and> 1 + r \<le> 1 + s \<and> 1 + s \<le> (1 + r) + 1 \<and>
          1 + s \<le> 1 + c \<and> 1 + c \<le> length (p # ps) \<and>
          ((\<forall>q\<in>set (p # ps). commit_raises ev n (exchange ex) q = None) \<longrightarrow> 1 + r = 1 + s)"
        using tally_trans [OF t1 t2] b by simp
      then have "\<exists>r s c. tally w w2 r s c \<and> r \<le> s \<and> s \<le> r + 1 \<and> s \<le> c \<and> c \<le> length (p # ps) \<and>
          ((\<forall>q\<in>set (p # ps). commit_raises ev n (exchange ex) q = None) \<longrightarrow> r = s)"
        by blast
      with Ok inner show ?thesis by simp
    qed
  qed
qed

lemma collect_exchanges_tally:
  assumes "pending w = []"
  shows "case collect_exchanges cfg ev n exs w of
           Ok w' \<Rightarrow> (\<exists>k. tally w w' k k k \<and> k \<le> (\<Sum>ex\<leftarrow>exs. length (products ex))) \<and> pending w' = []
         | Raised e w' \<Rightarrow>
             (\<exists>r s c. tally w w' r s c \<and> r \<le> s \<and> s \<le> r + 1 \<and> s \<le> c \<and>
                c \<le> (\<Sum>ex\<leftarrow>exs. length (products ex)) \<and>
                ((\<forall>ex\<in>set exs. \<forall>p\<in>set (map fst (products ex)).
                    commit_raises ev n (exchange ex) p = None) \<longrightarrow> r = s))"
  using assms
proof (induction exs arbitrary: w)
  case Nil
  have "tally w w 0 0 0 \<and> (0::nat) \<le> 0" by (simp add: tally_refl)
  then have "\<exists>k. tally w w k k k \<and> k \<le> 0" by blast
  with Nil show ?case by simp
next
  case (Cons x exs)
  let ?P = "\<Sum>ex\<leftarrow>exs. length (products ex)"
  let ?m = "length (products x)"
  show ?case
  proof (cases "record_ticker x n")
    case (Some e)
    have "tally w w 0 0 0 \<and> (0::nat) \<le> 0 \<and> (0::nat) \<le> 0 + 1 \<and> (0::nat) \<le> 0 \<and> 0 \<le> ?m + ?P"
      by (simp add: tally_refl)
    then have "\<exists>r s c. tally w w r s c \<and> r \<le> s \<and> s \<le> r + 1 \<and> s \<le> c \<and> c \<le> ?m + ?P \<and>
        ((\<forall>ex\<in>set (x # exs). \<forall>p\<in>set (map fst (products ex)).
            commit_raises ev n (exchange ex) p = None) \<longrightarrow> r = s)"
      by blast
    with Some show ?thesis by simp
  next
    case None
    note prods = collect_products_tally [where cfg = cfg and ev = ev and n = n and ex = x and ps = "map fst (products x)", OF Cons.prems]
    show ?thesis
    proof (cases "collect_products cfg ev n x (map fst (products x)) w")
      case (Raised e w1)
      with prods have "\<exists>r s c. tally w w1 r s c \<and> r \<le> s \<and> s \<le> r + 1 \<and> s \<le> c \<and>
          c \<le> length (map fst (products x)) \<and>
          ((\<forall>p\<in>set (map fst (products x)). commit_raises ev n (exchange x) p = None) \<longrightarrow> r = s)"
        by simp
      then obtain r s c where "tally w w1 r s c" "r \<le> s" "s \<le> r + 1" "s \<le> c" "c \<le> ?m"
        "(\<forall>p\<in>set (map fst (products x)). commit_raises ev n (exchange x) p = None) \<longrightarrow> r = s"
        by auto
      then have "tally w w1 r s c \<and> r \<le> s \<and> s \<le> r + 1 \<and> s \<le> c \<and> c \<le> ?m + ?P \<and>
        ((\<forall>ex\<in>set (x # exs). \<forall>p\<in>set (map fst (products ex)).
            commit_raises ev n (exchange ex) p = None) \<longrightarrow> r = s)"
        by simp
      then have "\<exists>r s c. tally w w1 r s c \<and> r \<le> s \<and> s \<le> r + 1 \<and> s \<le> c \<and> c \<le> ?m + ?P \<and>
        ((\<forall>ex\<in>set (x # exs). \<forall>p\<in>set (map fst (products ex)).
            commit_raises ev n (exchange ex) p = None) \<longrightarrow> r = s)"
        by blast
      with None Raised show ?thesis by simp
    next
      case (Ok w1)
      with prods have t1: "tally w w1 ?m ?m ?m" and clean: "pending w1 = []" by simp_all
      note ih = Cons.IH [OF clean]
      show ?thesis
      proof (cases "collect_exchanges cfg ev n exs w1")
        case inner: (Ok w2)
        with ih obtain k where "tally w1 w2 k k k" "k \<le> ?P" "pending w2 = []" by auto
        with tally_trans [OF t1 this(1)]
        have "tally w w2 (?m + k) (?m + k) (?m + k) \<and> ?m + k \<le> ?m + ?P" "pending w2 = []"
          by simp_all
        then have "(\<exists>k. tally w w2 k k k \<and> k \<le> ?m + ?P) \<and> pending w2 = []" by blast
        with None Ok inner show ?thesis by simp
      next
        case inner: (Raised e w2)
        with ih have "\<exists>r s c. tally w1 w2 r s c \<and> r \<le> s \<and> s \<le> r + 1 \<and> s \<le> c \<and> c \<le> ?P \<and>
            ((\<forall>ex\<in>set exs. \<forall>p\<in>set (map fst (products ex)).
                commit_raises ev n (exchange ex) p = None) \<longrightarrow> r = s)"
          by simp
        then obtain r s c where t2: "tally w1 w2 r s c" and
          b: "r \<le> s" "s \<le> r + 1" "s \<le> c" "c \<le> ?P"
          "(\<forall>ex\<in>set exs. \<forall>p\<in>set (map fst (products ex)).
              commit_raises ev n (exchange ex) p = None) \<longrightarrow> r = s"
          by blast
        have "tally w w2 (?m + r) (?m + s) (?m + c) \<and> ?m + r \<le> ?m + s \<and>
            ?m + s \<le> (?m + r) + 1 \<and> ?m + s \<le> ?m + c \<and> ?m + c \<le> ?m + ?P \<and>
            ((\<forall>ex\<in>set (x # exs). \<forall>p\<in>set (map fst (products ex)).
                commit_raises ev n (exchange ex) p = None) \<longrightarrow> ?m + r = ?m + s)"
          using tally_trans [OF t1 t2] b by simp
        then have "\<exists>r s c. tally w w2 r s c \<and> r \<le> s \<and> s \<le> r + 1 \<and> s \<le> c \<and> c \<le> ?m + ?P \<and>
            ((\<forall>ex\<in>set (x # exs). \<forall>p\<in>set (map fst (products ex)).
                commit_raises ev n (exchange ex) p = None) \<longrightarrow> r = s)"
          by blast
        with None Ok inner show ?thesis by simp
      qed
    qed
  qed
qed

subsection \<open>Provisioning\<close>

lemma ensure_index_no_collection: "no_collection w (state_of (ensure_index ev idx w))"
  by (simp add: no_collection_def ensure_index_def es_indices_exists_def es_indices_create_def
      split: option.splits)

lemma no_collection_logging: "no_collection w w' \<Longrightarrow> no_collection w (logging l w')"
  by (simp add: no_collection_def logging_def)

lemma no_collection_trans:
  "no_collection w w1 \<Longrightarrow> no_collection w1 w2 \<Longrightarrow> no_collection w w2"
  by (simp add: no_collection_def)

lemma no_collection_refl: "no_collection w w"
  by (simp add: no_collection_def)

lemma provision_products_no_collection:
  "no_collection w (state_of (provision_products ev ps w))"
proof (induction ps arbitrary: w)
  case Nil
  show ?case by (simp add: no_collection_refl)
next
  case (Cons a ps)
  obtain p i where a: "a = (p, i)" by (cases a)
  show ?case
  proof (cases "ensure_index ev i w")
    case (Ok w1)
    have "no_collection w (logging (Index_created p) w1)"
      using ensure_index_no_collection [of w ev i] Ok by (simp add: no_collection_logging)
    from no_collection_trans [OF this Cons.IH] show ?thesis using a Ok by simp
  next
    case (Raised e w1)
    then show ?thesis using a ensure_index_no_collection [of w ev i] by simp
  qed
qed

lemma provision_exchanges_no_collection:
  "no_collection w (state_of (provision_exchanges ev exs w))"
proof (induction exs arbitrary: w)
  case Nil
  show ?case by (simp add: no_collection_refl)
next
  case (Cons ex exs)
  let ?w0 = "logging (Connected (exchange ex)) w"
  have step: "no_collection w (state_of (provision_products ev (products ex) ?w0))"
    using no_collection_trans [OF no_collection_logging [OF no_collection_refl]
        provision_products_no_collection] .
  show ?case
  proof (cases "provision_products ev (products ex) ?w0")
    case (Ok w1)
    with step have "no_collection w w1" by simp
    from no_collection_trans [OF this Cons.IH] show ?thesis using Ok by simp
  next
    case (Raised e w1)
    with step show ?thesis by simp
  qed
qed

lemma ensure_index_blocked: "blocked ev w idx \<Longrightarrow> \<exists>e w'. ensure_index ev idx w = Raised e w'"
  by (auto simp: blocked_def ensure_index_def es_indices_exists_def es_indices_create_def
      split: option.splits)

lemma ensure_index_keeps_blocked:
  "ensure_index ev j w = Ok w' \<Longrightarrow> blocked ev w idx \<Longrightarrow> blocked ev w' idx"
  by (auto simp: blocked_def ensure_index_def es_indices_exists_def es_indices_create_def
      split: option.splits if_splits)

lemma blocked_logging: "blocked ev (logging l w) idx = blocked ev w idx"
  by (simp add: blocked_def logging_def)

lemma provision_products_keeps_blocked:
  "provision_products ev ps w = Ok w' \<Longrightarrow> blocked ev w idx \<Longrightarrow> blocked ev w' idx"
proof (induction ps arbitrary: w)
  case Nil
  then show ?case by simp
next
  case (Cons a ps)
  obtain p i where a: "a = (p, i)" by (cases a)
  from Cons.prems(1) a obtain w1 where w1: "ensure_index ev i w = Ok w1"
    and rest: "provision_products ev ps (logging (Index_created p) w1) = Ok w'"
    by (auto split: outcome.splits)
  have "blocked ev (logging (Index_created p) w1) idx"
    using ensure_index_keeps_blocked [OF w1 Cons.prems(2)] by (simp add: blocked_logging)
  from Cons.IH [OF rest this] show ?case .
qed

lemma provision_products_blocked:
  "(p, idx) \<in> set ps \<Longrightarrow> blocked ev w idx \<Longrightarrow> \<exists>e w'. provision_products ev ps w = Raised e w'"
proof (induction ps arbitrary: w)
  case Nil
  then show ?case by simp
next
  case (Cons a ps)
  obtain q i where a: "a = (q, i)" by (cases a)
  show ?case
  proof (cases "ensure_index ev i w")
    case (Raised e w1)
    with a show ?thesis by simp
  next
    case (Ok w1)
    have "i \<noteq> idx" using Ok ensure_index_blocked [OF Cons.prems(2)] by auto
    with Cons.prems(1) a have mem: "(p, idx) \<in> set ps" by auto
    have "blocked ev (logging (Index_created q) w1) idx"
      using ensure_index_keeps_blocked [OF Ok Cons.prems(2)] by (simp add: blocked_logging)
    from Cons.IH [OF mem this] show ?thesis using a Ok by simp
  qed
qed

lemma provision_exchanges_blocked:
  "ex \<in> set exs \<Longrightarrow> (p, idx) \<in> set (products ex) \<Longrightarrow> blocked ev w idx \<Longrightarrow>
     \<exists>e w'. provision_exchanges ev exs w = Raised e w'"
proof (induction exs arbitrary: w)
  case Nil
  then show ?case by simp
next
  case (Cons x exs)
  let ?w0 = "logging (Connected (exchange x)) w"
  have b0: "blocked ev ?w0 idx" using Cons.prems(3) by (simp add: blocked_logging)
  show ?case
  proof (cases "provision_products ev (products x) ?w0")
    case (Raised e w1)
    then show ?thesis by simp
  next
    case (Ok w1)
    have "x \<noteq> ex" using Ok provision_products_blocked [OF _ b0, of p "products x"] Cons.prems(2)
      by auto
    with Cons.prems(1) have mem: "ex \<in> set exs" by auto
    from Cons.IH [OF mem Cons.prems(2) provision_products_keeps_blocked [OF Ok b0]]
    show ?thesis using Ok by simp
  qed
qed

section \<open>The claims\<close>

subsection \<open>C1: where an exchange's failure is caught\<close>




subsection \<open>C2: a failing ticker push\<close>

text \<open>
  C2, as the code has it. When \<open>record_ticker\<close> of an exchange raises, after the exchanges
  before it have been collected, the cycle ends there: the handler around the cycle logs
  the exception and sleeps ten seconds; no price is fetched, written or alerted for that
  exchange or for any exchange after it in this cycle, and the loop goes on.
\<close>

theorem ticker_failure_ends_cycle:
  assumes "record_ticker ex n = Some e"
    and "sleep (MARKET_REFRESH_RATE cfg) w = Ok w1"
    and "collect_exchanges cfg ev n before w1 = Ok w2"
  shows "\<exists>w'. iteration cfg ev (before @ ex # rest) n w = Ok w' \<and>
           table w' = table w2 \<and> fetch_calls w' = fetch_calls w2 \<and>
           alerts w' = alerts w2 \<and>
           logged w' = logged w2 @ [Tracking_error e] \<and>
           clock w' = clock w2 + 10"
  using assms
  by (simp add: iteration_def collect_exchanges_append sleep_def logging_def)

text \<open>The theorem at an exchange whose ticker push is refused, followed by a healthy one.\<close>

theorem ticker_failure_ends_cycle_witness:
  "record_ticker (ticker_down ''okcoin'' ''BTC'' ''btc'' 100) 0 = Some (Exception ''connection refused'') \<and>
   sleep (MARKET_REFRESH_RATE cfg0) fresh = Ok (fresh\<lparr>clock := 1\<rparr>) \<and>
   collect_exchanges cfg0 env_ok 0 [] (fresh\<lparr>clock := 1\<rparr>) = Ok (fresh\<lparr>clock := 1\<rparr>) \<and>
   (\<exists>w'. iteration cfg0 env_ok ([] @ ticker_down ''okcoin'' ''BTC'' ''btc'' 100 # [steady ''gdax'' ''BTC-USD'' ''btc2'' 100]) 0 fresh = Ok w' \<and>
      table w' = [] \<and> fetch_calls w' = 0 \<and> clock w' = 11)"
proof -
  have h1: "record_ticker (ticker_down ''okcoin'' ''BTC'' ''btc'' 100) 0 = Some (Exception ''connection refused'')"
    by (simp add: ticker_down_def)
  have h2: "sleep (MARKET_REFRESH_RATE cfg0) fresh = Ok (fresh\<lparr>clock := 1\<rparr>)"
    by (simp add: sleep_def cfg0_def fresh_def)
  have h3: "collect_exchanges cfg0 env_ok 0 [] (fresh\<lparr>clock := 1\<rparr>) = Ok (fresh\<lparr>clock := 1\<rparr>)"
    by simp
  show ?thesis
    using h1 h2 h3 ticker_failure_ends_cycle [OF h1 h2 h3, of "[steady ''gdax'' ''BTC-USD'' ''btc2'' 100]"]
    by (auto simp: fresh_def)
qed

text \<open>
  C2 as stated fails: the ticker push is refused, the fetch and the commit would succeed,
  and after the cycle the product has not been fetched and its row is not in the table.
\<close>

theorem ticker_failure_counterexample:
  "record_ticker (ticker_down ''okcoin'' ''BTC'' ''btc'' 100) 0 \<noteq> None \<and>
   get_price (ticker_down ''okcoin'' ''BTC'' ''btc'' 100) 0 ''BTC'' = Inr 100 \<and>
   commit_raises env_ok 0 ''okcoin'' ''BTC'' = None \<and>
   \<lparr>md_exchange = ''okcoin'', md_product = ''BTC'', md_price = 100\<rparr>
     \<notin> set (table (state_of (while_loop cfg0 env_ok [ticker_down ''okcoin'' ''BTC'' ''btc'' 100] 1 0 fresh))) \<and>
   fetch_calls (state_of (while_loop cfg0 env_ok [ticker_down ''okcoin'' ''BTC'' ''btc'' 100] 1 0 fresh)) = 0"
  by (simp add: ticker_down_def steady_def env_ok_def cfg0_def fresh_def iteration_def sleep_def
      logging_def)

subsection \<open>C3: the threshold\<close>

text \<open>
  C3. When the fetch of a product returns a price and the commit of its row succeeds, the
  pass over that product completes and \<open>send_email_alert\<close> is called exactly once if the
  price is strictly greater than the threshold, and not at all otherwise.
\<close>

theorem alert_iff_above_threshold:
  assumes "get_price ex n p = Inr price"
    and "commit_raises ev n (exchange ex) p = None"
  shows "\<exists>w'. collect_product cfg ev n ex p w = Ok w' \<and>
           alerts w' = alerts w @
             (if price > PRICE_THRESHOLD cfg
              then [\<lparr>alert_product = p, alert_exchange = exchange ex, alert_price = price\<rparr>]
              else [])"
  using assms
  by (simp add: collect_product_def db_session_commit_def db_session_add_def
      send_email_alert_def logging_def Let_def split: option.splits)

text \<open>
  With threshold 50000: no alert at price 50000, exactly one alert at price 50000.01.
\<close>

theorem alert_iff_above_threshold_witness:
  "alerts (state_of (collect_product cfg0 env_ok 0 (steady ''gdax'' ''BTC-USD'' ''btc'' 50000) ''BTC-USD'' fresh)) = []
   \<and> alerts (state_of (collect_product cfg0 env_ok 0 (steady ''gdax'' ''BTC-USD'' ''btc'' 50000.01) ''BTC-USD'' fresh))
      = [\<lparr>alert_product = ''BTC-USD'', alert_exchange = ''gdax'', alert_price = 50000.01\<rparr>]"
  using alert_iff_above_threshold [of "steady ''gdax'' ''BTC-USD'' ''btc'' 50000" 0 "''BTC-USD''" 50000 env_ok cfg0 fresh]
    alert_iff_above_threshold [of "steady ''gdax'' ''BTC-USD'' ''btc'' 50000.01" 0 "''BTC-USD''" "50000.01" env_ok cfg0 fresh]
  by (auto simp: steady_def env_ok_def cfg0_def fresh_def)

subsection \<open>C4: no alert without a committed row\<close>

text \<open>
  C4. When the fetch of a product returns a price and the commit of its row raises, the
  loop over the products is left with that exception, no alert has been produced (whatever
  the price) and the table is unchanged.
\<close>

theorem no_alert_when_commit_fails:
  assumes "get_price ex n p = Inr price"
    and "commit_raises ev n (exchange ex) p = Some e"
  shows "\<exists>w'. collect_products cfg ev n ex (p # ps) w = Raised e w' \<and>
           alerts w' = alerts w \<and> table w' = table w"
  using assms
  by (simp add: collect_product_def db_session_commit_def db_session_add_def Let_def)

text \<open>The theorem at a price of 60000, above the threshold of 50000.\<close>

theorem no_alert_when_commit_fails_witness:
  "get_price (steady ''gdax'' ''BTC-USD'' ''btc'' 60000) 0 ''BTC-USD'' = Inr 60000 \<and>
   60000 > PRICE_THRESHOLD cfg0 \<and>
   commit_raises env_commit_down 0 ''gdax'' ''BTC-USD'' = Some (Exception ''database is locked'') \<and>
   (\<exists>w'. collect_products cfg0 env_commit_down 0 (steady ''gdax'' ''BTC-USD'' ''btc'' 60000)
            [''BTC-USD''] fresh = Raised (Exception ''database is locked'') w' \<and>
          alerts w' = alerts fresh \<and> table w' = table fresh)"
proof -
  have h1: "get_price (steady ''gdax'' ''BTC-USD'' ''btc'' 60000) 0 ''BTC-USD'' = Inr 60000"
    by (simp add: steady_def)
  have h2: "commit_raises env_commit_down 0 (exchange (steady ''gdax'' ''BTC-USD'' ''btc'' 60000))
      ''BTC-USD'' = Some (Exception ''database is locked'')"
    by (simp add: env_commit_down_def env_ok_def)
  have h3: "60000 > PRICE_THRESHOLD cfg0" by (simp add: cfg0_def)
  show ?thesis
    using h1 h2 h3 no_alert_when_commit_fails [OF h1 h2, of cfg0 "[]" fresh]
    by (simp add: steady_def)
qed

subsection \<open>C5: rows written against fetches\<close>

text \<open>
  C5, as the code has it. In a cycle begun with nothing pending in the session, the rows
  written number at most the fetches that returned a price, these number at most the
  fetches made, and these at most the registered (exchange, product) pairs. Rows and
  successful fetches are equal when no commit of the cycle fails, and differ by at most
  one otherwise: the fetch whose commit failed, which ends the cycle.
\<close>

theorem written_vs_fetched:
  assumes "pending w = []"
  shows "\<exists>r s c. tally w (state_of (collect_exchanges cfg ev n exchanges w)) r s c \<and>
           r \<le> s \<and> s \<le> r + 1 \<and> s \<le> c \<and> c \<le> (\<Sum>ex\<leftarrow>exchanges. length (products ex)) \<and>
           ((\<forall>ex\<in>set exchanges. \<forall>p\<in>set (map fst (products ex)).
               commit_raises ev n (exchange ex) p = None) \<longrightarrow> r = s)"
proof (cases "collect_exchanges cfg ev n exchanges w")
  case (Ok w')
  with collect_exchanges_tally [where cfg = cfg and ev = ev and n = n and exs = exchanges, OF assms]
  obtain k where "tally w w' k k k" "k \<le> (\<Sum>ex\<leftarrow>exchanges. length (products ex))" by auto
  then have "tally w w' k k k \<and> k \<le> k \<and> k \<le> k + 1 \<and> k \<le> k \<and>
      k \<le> (\<Sum>ex\<leftarrow>exchanges. length (products ex)) \<and>
      ((\<forall>ex\<in>set exchanges. \<forall>p\<in>set (map fst (products ex)).
          commit_raises ev n (exchange ex) p = None) \<longrightarrow> k = k)" by simp
  then show ?thesis unfolding Ok state_of.simps by blast
next
  case (Raised e w')
  with collect_exchanges_tally [where cfg = cfg and ev = ev and n = n and exs = exchanges, OF assms]
  show ?thesis by simp
qed

text \<open>The theorem in a cycle whose only commit is refused.\<close>

theorem written_vs_fetched_witness:
  "pending fresh = [] \<and>
   (\<exists>r s c. tally fresh (state_of (collect_exchanges cfg0 env_commit_down 0
                [steady ''gdax'' ''BTC-USD'' ''btc'' 100] fresh)) r s c \<and>
      r \<le> s \<and> s \<le> r + 1 \<and> s \<le> c \<and> c \<le> 1)"
proof -
  have h: "pending fresh = []" by (simp add: fresh_def)
  have len: "(\<Sum>ex\<leftarrow>[steady ''gdax'' ''BTC-USD'' ''btc'' 100]. length (products ex)) = 1"
    by (simp add: steady_def)
  show ?thesis
    using h written_vs_fetched [where cfg = cfg0 and ev = env_commit_down and n = 0
        and exchanges = "[steady ''gdax'' ''BTC-USD'' ''btc'' 100]", OF h]
    unfolding len by blast
qed

text \<open>
  C5 as stated fails: the fetch returns a price, the commit is refused, and the cycle has
  one successful fetch and no row written.
\<close>

theorem lost_fetch_counterexample:
  "\<not> length (table (state_of (collect_exchanges cfg0 env_commit_down 0
           [steady ''gdax'' ''BTC-USD'' ''btc'' 100] fresh))) - length (table fresh)
     = fetch_ok (state_of (collect_exchanges cfg0 env_commit_down 0
           [steady ''gdax'' ''BTC-USD'' ''btc'' 100] fresh)) - fetch_ok fresh"
  by (simp add: steady_def cfg0_def fresh_def env_commit_down_def env_ok_def
      collect_product_def db_session_add_def db_session_commit_def)

subsection \<open>C6: provisioning an index twice\<close>

text \<open>
  C6. In a store whose index names are unique, once the code of lines 154 and 155 has
  completed for an index, running it again completes too, changes nothing and raises
  nothing; the index exists exactly once, created by the first run if it was absent.
\<close>

theorem ensure_index_idempotent:
  assumes "distinct (indices w)" and "ensure_index ev idx w = Ok w1"
  shows "ensure_index ev idx w1 = Ok w1 \<and> count_list (indices w1) idx = 1 \<and>
         indices w1 = (if idx \<in> set (indices w) then indices w else indices w @ [idx])"
  using assms
  by (auto simp: ensure_index_def es_indices_exists_def es_indices_create_def count_list_distinct
      split: option.splits if_splits)

text \<open>The theorem at a new index in an empty store.\<close>

theorem ensure_index_idempotent_witness:
  "distinct (indices fresh) \<and>
   ensure_index env_ok ''btc'' fresh = Ok (fresh\<lparr>indices := [''btc'']\<rparr>) \<and>
   ensure_index env_ok ''btc'' (fresh\<lparr>indices := [''btc'']\<rparr>) = Ok (fresh\<lparr>indices := [''btc'']\<rparr>) \<and>
   count_list (indices (fresh\<lparr>indices := [''btc'']\<rparr>)) ''btc'' = 1"
proof -
  have h1: "distinct (indices fresh)" by (simp add: fresh_def)
  have h2: "ensure_index env_ok ''btc'' fresh = Ok (fresh\<lparr>indices := [''btc'']\<rparr>)"
    by (simp add: ensure_index_def es_indices_exists_def es_indices_create_def env_ok_def fresh_def)
  show ?thesis
    using h1 h2 ensure_index_idempotent [OF h1 h2] by simp
qed

subsection \<open>C7: a provisioning failure is fatal\<close>

text \<open>
  C7. If for some product of some registered exchange the existence check of its index
  raises, or the index is absent and its creation raises, then \<open>main\<close> ends with an
  exception before the loop, however long one waits: no sleep, no fetch, no row, no
  alert.
\<close>

theorem provisioning_failure_is_fatal:
  assumes "ex \<in> set exchanges" and "(product, kibana_index) \<in> set (products ex)"
    and "exists_raises ev kibana_index \<noteq> None \<or>
         (kibana_index \<notin> set (indices w) \<and> create_raises ev kibana_index \<noteq> None)"
  shows "\<exists>e w'. main cfg ev exchanges k w = Raised e w' \<and>
           table w' = table w \<and> pending w' = pending w \<and> alerts w' = alerts w \<and>
           clock w' = clock w \<and> fetch_calls w' = fetch_calls w"
proof (cases "create_all_raises ev")
  case (Some e)
  then show ?thesis by (simp add: main_def db_create_all_def)
next
  case None
  let ?w0 = "logging (Started (MARKET_REFRESH_RATE cfg) (PRICE_THRESHOLD cfg)) w"
  have "blocked ev ?w0 kibana_index"
    using assms(3) by (simp add: blocked_def logging_def)
  from provision_exchanges_blocked [OF assms(1,2) this]
  obtain e w' where r: "provision_exchanges ev exchanges ?w0 = Raised e w'" by blast
  have "no_collection ?w0 w'"
    using provision_exchanges_no_collection [of ?w0 ev exchanges] r by simp
  then have "no_collection w w'"
    by (simp add: no_collection_def logging_def)
  with None r show ?thesis
    by (simp add: main_def db_create_all_def no_collection_def)
qed

text \<open>The theorem with an unreachable search store.\<close>

theorem provisioning_failure_is_fatal_witness:
  "steady ''gdax'' ''BTC-USD'' ''btc'' 100 \<in> set [steady ''gdax'' ''BTC-USD'' ''btc'' 100] \<and>
   (''BTC-USD'', ''btc'') \<in> set (products (steady ''gdax'' ''BTC-USD'' ''btc'' 100)) \<and>
   exists_raises env_es_down ''btc'' \<noteq> None \<and>
   (\<exists>e w'. main cfg0 env_es_down [steady ''gdax'' ''BTC-USD'' ''btc'' 100] 3 fresh = Raised e w' \<and>
      table w' = [] \<and> clock w' = 0 \<and> fetch_calls w' = 0)"
proof -
  have h1: "steady ''gdax'' ''BTC-USD'' ''btc'' 100 \<in> set [steady ''gdax'' ''BTC-USD'' ''btc'' 100]"
    by simp
  have h2: "(''BTC-USD'', ''btc'') \<in> set (products (steady ''gdax'' ''BTC-USD'' ''btc'' 100))"
    by (simp add: steady_def)
  have h3: "exists_raises env_es_down ''btc'' \<noteq> None"
    by (simp add: env_es_down_def env_ok_def)
  have h3': "exists_raises env_es_down ''btc'' \<noteq> None \<or>
      (''btc'' \<notin> set (indices fresh) \<and> create_raises env_es_down ''btc'' \<noteq> None)"
    using h3 by simp
  have fr: "table fresh = []" "clock fresh = 0" "fetch_calls fresh = 0"
    by (simp_all add: fresh_def)
  show ?thesis
    using h1 h2 h3 fr provisioning_failure_is_fatal [where cfg = cfg0 and k = 3, OF h1 h2 h3']
    by auto
qed

subsection \<open>C8: the cooldown\<close>



subsection \<open>C9: the scenario\<close>

text \<open>
  C9. Refresh interval 1, threshold 50000, two exchanges with one product each, the first
  always at price 100, the second always at 60000. After three cycles the table holds six
  rows, three of each exchange, and exactly three alerts have been produced, all for the
  second exchange.
\<close>

theorem scenario_three_cycles:
  "\<exists>w. main cfg0 env_ok [steady ''one'' ''BTC-USD'' ''btc1'' 100,
                          steady ''two'' ''BTC-USD'' ''btc2'' 60000] 3 fresh = Ok w \<and>
     length (table w) = 6 \<and>
     length (filter (\<lambda>r. md_exchange r = ''one'') (table w)) = 3 \<and>
     length (filter (\<lambda>r. md_exchange r = ''two'') (table w)) = 3 \<and>
     alerts w = replicate 3 \<lparr>alert_product = ''BTC-USD'', alert_exchange = ''two'', alert_price = 60000\<rparr>"
  by (simp add: main_def cfg0_def env_ok_def fresh_def steady_def db_create_all_def
   ensure_index_def es_indices_exists_def es_indices_create_def logging_def numeral_3_eq_3
   iteration_def sleep_def collect_product_def db_session_add_def db_session_commit_def
   send_email_alert_def Let_def)

end
